theory Spec2Isabelle
  imports Main
begin

section \<open>Plan nodes, continuations and the observable state\<close>

text \<open>
  The stage of \<^verbatim>\<open>query/stage/base_stage.go\<close> drives a tree of plan nodes and reports through
  two caller-supplied continuations. \<^verbatim>\<open>PlanNode\<close> is an interface with the methods
  \<^verbatim>\<open>Execute() error\<close> and \<^verbatim>\<open>Children() []PlanNode\<close>; both are opaque to the stage.

  A call of \<^verbatim>\<open>node.Execute()\<close> has three ways to end: it returns \<^verbatim>\<open>nil\<close>, it returns a
  non-nil error, or it panics. The panic value is kept as an error value, the form in which
  a recovering caller hands it on.
\<close>

datatype 'e outcome = Ok | Failed 'e | Panic 'e

text \<open>A call without a result value either returns or is unwound by a panic.\<close>

datatype 'e exit = Returns | Panics 'e

text \<open>
  What an observer can see of a run: which node had its \<^verbatim>\<open>Execute\<close> invoked, and which
  continuation was invoked with which error.
\<close>

datatype 'e event = Ran nat | Completed | Errored 'e

text \<open>
  A plan node is \<^verbatim>\<open>nil\<close> or an object. An object carries a label (its identity, used only
  to name it in the trace), the effect of its \<^verbatim>\<open>Execute\<close> method on the state shared by
  the nodes and the continuations, and the slice returned by \<^verbatim>\<open>Children()\<close>, which may
  hold \<^verbatim>\<open>nil\<close> entries. The datatype is the finite, acyclic tree; \<^verbatim>\<open>Children()\<close> is taken
  to return the stored slice without an effect of its own.
\<close>

datatype ('s, 'e) PlanNode =
  NilNode
| Node nat "'s \<Rightarrow> 'e outcome \<times> 's" "('s, 'e) PlanNode list"

text \<open>
  The closure \<^verbatim>\<open>func() { execFn() }\<close> handed to the pool is kept as the variables it
  captures: the node and the two continuations. The continuations are the caller's code;
  they are store transformers and are taken to return normally.
\<close>

datatype ('s, 'e) action = ExecFn "('s, 'e) PlanNode" "'s \<Rightarrow> 's" "'e \<Rightarrow> 's \<Rightarrow> 's"

datatype ('s, 'e) Task = NewTask (handle: "('s, 'e) action") (panicHandle: "'e \<Rightarrow> 's \<Rightarrow> 's")

text \<open>
  Modelled from the spec: the package \<^verbatim>\<open>internal/concurrent\<close> (\<^verbatim>\<open>Pool\<close>, \<^verbatim>\<open>Submit\<close>,
  \<^verbatim>\<open>NewTask\<close>) is not part of the sources at hand. A pool accepts tasks under a context and
  may reject a submission whose context is cancelled or expired, with an error for the
  task's error-continuation; \<open>admission\<close> is that verdict (\<open>None\<close>: the action is run).
\<close>

record ('c, 'e) Pool =
  admission :: "'c \<Rightarrow> 'e option"

record ('s, 'e, 'c) world =
  store :: 's
  trace :: "'e event list"
  pending :: "(('c, 'e) Pool \<times> 'c \<times> ('s, 'e) Task) list"

text \<open>The struct \<^verbatim>\<open>baseStage\<close>; a \<^verbatim>\<open>nil\<close> interface value is \<open>None\<close>.\<close>

record ('c, 'e, 'ty) baseStage =
  ctx :: "'c option"
  stageType :: 'ty
  execPool :: "('c, 'e) Pool option"

section \<open>The traversal\<close>

text \<open>Invoking a node's \<^verbatim>\<open>Execute\<close>: the invocation is recorded, the method acts on the store.\<close>

definition node_Execute ::
  "nat \<Rightarrow> ('s \<Rightarrow> 'e outcome \<times> 's) \<Rightarrow> ('s, 'e, 'c) world \<Rightarrow> 'e outcome \<times> ('s, 'e, 'c) world" where
  "node_Execute i f w =
     (case f (store w) of (r, s') \<Rightarrow> (r, w\<lparr>store := s', trace := trace w @ [Ran i]\<rparr>))"

text \<open>
  \<^verbatim>\<open>func (stage *baseStage) execute(node PlanNode) error\<close>. The receiver is not read in the
  body. \<open>execute_children\<close> is the \<^verbatim>\<open>for idx := range children\<close> loop.
\<close>

fun execute :: "('s, 'e) PlanNode \<Rightarrow> ('s, 'e, 'c) world \<Rightarrow> 'e outcome \<times> ('s, 'e, 'c) world"
and execute_children ::
  "('s, 'e) PlanNode list \<Rightarrow> ('s, 'e, 'c) world \<Rightarrow> 'e outcome \<times> ('s, 'e, 'c) world" where
  "execute NilNode w = (Ok, w)"
| "execute (Node i f children) w =
     (case node_Execute i f w of
        (Ok, w') \<Rightarrow> execute_children children w'
      | (Failed err, w') \<Rightarrow> (Failed err, w')
      | (Panic p, w') \<Rightarrow> (Panic p, w'))"
| "execute_children [] w = (Ok, w)"
| "execute_children (child # rest) w =
     (case execute child w of
        (Ok, w') \<Rightarrow> execute_children rest w'
      | (Failed err, w') \<Rightarrow> (Failed err, w')
      | (Panic p, w') \<Rightarrow> (Panic p, w'))"

section \<open>The stage\<close>

definition call_complete :: "('s \<Rightarrow> 's) \<Rightarrow> ('s, 'e, 'c) world \<Rightarrow> ('s, 'e, 'c) world" where
  "call_complete completeHandle w =
     w\<lparr>store := completeHandle (store w), trace := trace w @ [Completed]\<rparr>"

definition call_err :: "('e \<Rightarrow> 's \<Rightarrow> 's) \<Rightarrow> 'e \<Rightarrow> ('s, 'e, 'c) world \<Rightarrow> ('s, 'e, 'c) world" where
  "call_err errHandle err w =
     w\<lparr>store := errHandle err (store w), trace := trace w @ [Errored err]\<rparr>"

text \<open>The local closure \<^verbatim>\<open>execFn\<close> of \<^verbatim>\<open>Execute\<close>. A panic of a node unwinds it.\<close>

definition execFn ::
  "('s, 'e) PlanNode \<Rightarrow> ('s \<Rightarrow> 's) \<Rightarrow> ('e \<Rightarrow> 's \<Rightarrow> 's) \<Rightarrow> ('s, 'e, 'c) world
     \<Rightarrow> 'e exit \<times> ('s, 'e, 'c) world" where
  "execFn node completeHandle errHandle w =
     (case execute node w of
        (Failed err, w') \<Rightarrow> (Returns, call_err errHandle err w')
      | (Ok, w') \<Rightarrow> (Returns, call_complete completeHandle w')
      | (Panic p, w') \<Rightarrow> (Panics p, w'))"

fun run_action :: "('s, 'e) action \<Rightarrow> ('s, 'e, 'c) world \<Rightarrow> 'e exit \<times> ('s, 'e, 'c) world" where
  "run_action (ExecFn node completeHandle errHandle) w = execFn node completeHandle errHandle w"

text \<open>
  Modelled from the spec: \<^verbatim>\<open>Pool.Submit\<close> is not part of the sources at hand. Submission
  enqueues the task under its context and returns at once.
\<close>

definition Submit ::
  "('c, 'e) Pool \<Rightarrow> 'c \<Rightarrow> ('s, 'e) Task \<Rightarrow> ('s, 'e, 'c) world \<Rightarrow> 'e exit \<times> ('s, 'e, 'c) world" where
  "Submit pool c task w = (Returns, w\<lparr>pending := pending w @ [(pool, c, task)]\<rparr>)"

text \<open>
  Modelled from the spec: how a pool worker runs a task is not part of the sources at hand.
  The action runs; if it raises an unrecoverable fault, the task's error-continuation is
  invoked with it.
\<close>

definition Exec :: "('s, 'e) Task \<Rightarrow> ('s, 'e, 'c) world \<Rightarrow> ('s, 'e, 'c) world" where
  "Exec task w =
     (case run_action (handle task) w of
        (Returns, w') \<Rightarrow> w'
      | (Panics p, w') \<Rightarrow> call_err (panicHandle task) p w')"

text \<open>
  Modelled from the spec: what the pool does with one submission when it takes it up. A
  rejected submission has its error-continuation invoked instead of its action.
\<close>

definition process ::
  "('c, 'e) Pool \<times> 'c \<times> ('s, 'e) Task \<Rightarrow> ('s, 'e, 'c) world \<Rightarrow> ('s, 'e, 'c) world" where
  "process submission w =
     (case submission of (pool, c, task) \<Rightarrow>
        (case admission pool c of
           Some rejection \<Rightarrow> call_err (panicHandle task) rejection w
         | None \<Rightarrow> Exec task w))"

text \<open>\<^verbatim>\<open>func (stage *baseStage) Type() Type\<close>\<close>

definition Type :: "('c, 'e, 'ty) baseStage \<Rightarrow> 'ty" where
  "Type stage = stageType stage"

text \<open>\<^verbatim>\<open>func (stage *baseStage) Execute(node, completeHandle, errHandle)\<close>\<close>

definition Execute ::
  "('c, 'e, 'ty) baseStage \<Rightarrow> ('s, 'e) PlanNode \<Rightarrow> ('s \<Rightarrow> 's) \<Rightarrow> ('e \<Rightarrow> 's \<Rightarrow> 's)
     \<Rightarrow> ('s, 'e, 'c) world \<Rightarrow> 'e exit \<times> ('s, 'e, 'c) world" where
  "Execute stage node completeHandle errHandle w =
     (if execPool stage = None \<or> ctx stage = None
      then execFn node completeHandle errHandle w
      else Submit (the (execPool stage)) (the (ctx stage))
             (NewTask (ExecFn node completeHandle errHandle) errHandle) w)"

text \<open>\<^verbatim>\<open>func (stage *baseStage) Complete()\<close> has an empty body.\<close>

definition Complete :: "('c, 'e, 'ty) baseStage \<Rightarrow> ('s, 'e, 'c) world \<Rightarrow> 'e exit \<times> ('s, 'e, 'c) world" where
  "Complete stage w = (Returns, w)"

text \<open>\<^verbatim>\<open>func (stage *baseStage) NextStages() []Stage\<close> returns the \<^verbatim>\<open>nil\<close> slice.\<close>

definition NextStages :: "('c, 'e, 'ty) baseStage \<Rightarrow> ('c, 'e, 'ty) baseStage list" where
  "NextStages stage = []"

section \<open>The methods with their receiver\<close>

text \<open>
  The five methods have the pointer receiver \<^verbatim>\<open>stage *baseStage\<close>, so a body could assign to
  the fields of the stage. To speak about that, each method is given once more as it runs
  on the pair of the receiver object and the world: it returns its result together with
  the pair as its body leaves it. A node's \<^verbatim>\<open>Execute\<close> and the continuations act on the world.
\<close>

type_synonym ('s, 'e, 'c, 'ty) machine = "('c, 'e, 'ty) baseStage \<times> ('s, 'e, 'c) world"

text \<open>\<^verbatim>\<open>return stage.stageType\<close>\<close>

definition Type_method :: "('s, 'e, 'c, 'ty) machine \<Rightarrow> 'ty \<times> ('s, 'e, 'c, 'ty) machine" where
  "Type_method m = (stageType (fst m), m)"

text \<open>\<^verbatim>\<open>stage.execute(node)\<close>, the recursive calls made on the receiver.\<close>

fun execute_method ::
  "('s, 'e) PlanNode \<Rightarrow> ('s, 'e, 'c, 'ty) machine \<Rightarrow> 'e outcome \<times> ('s, 'e, 'c, 'ty) machine"
and execute_children_method ::
  "('s, 'e) PlanNode list \<Rightarrow> ('s, 'e, 'c, 'ty) machine
     \<Rightarrow> 'e outcome \<times> ('s, 'e, 'c, 'ty) machine" where
  "execute_method NilNode m = (Ok, m)"
| "execute_method (Node i f children) m =
     (case node_Execute i f (snd m) of
        (Ok, w') \<Rightarrow> execute_children_method children (fst m, w')
      | (Failed err, w') \<Rightarrow> (Failed err, (fst m, w'))
      | (Panic p, w') \<Rightarrow> (Panic p, (fst m, w')))"
| "execute_children_method [] m = (Ok, m)"
| "execute_children_method (child # rest) m =
     (case execute_method child m of
        (Ok, m') \<Rightarrow> execute_children_method rest m'
      | (Failed err, m') \<Rightarrow> (Failed err, m')
      | (Panic p, m') \<Rightarrow> (Panic p, m'))"

definition execFn_method ::
  "('s, 'e) PlanNode \<Rightarrow> ('s \<Rightarrow> 's) \<Rightarrow> ('e \<Rightarrow> 's \<Rightarrow> 's) \<Rightarrow> ('s, 'e, 'c, 'ty) machine
     \<Rightarrow> 'e exit \<times> ('s, 'e, 'c, 'ty) machine" where
  "execFn_method node completeHandle errHandle m =
     (case execute_method node m of
        (Failed err, m') \<Rightarrow> (Returns, (fst m', call_err errHandle err (snd m')))
      | (Ok, m') \<Rightarrow> (Returns, (fst m', call_complete completeHandle (snd m')))
      | (Panic p, m') \<Rightarrow> (Panics p, m'))"

definition Execute_method ::
  "('s, 'e) PlanNode \<Rightarrow> ('s \<Rightarrow> 's) \<Rightarrow> ('e \<Rightarrow> 's \<Rightarrow> 's) \<Rightarrow> ('s, 'e, 'c, 'ty) machine
     \<Rightarrow> 'e exit \<times> ('s, 'e, 'c, 'ty) machine" where
  "Execute_method node completeHandle errHandle m =
     (if execPool (fst m) = None \<or> ctx (fst m) = None
      then execFn_method node completeHandle errHandle m
      else (case Submit (the (execPool (fst m))) (the (ctx (fst m)))
                   (NewTask (ExecFn node completeHandle errHandle) errHandle) (snd m) of
              (x, w') \<Rightarrow> (x, (fst m, w'))))"

text \<open>The empty body of \<^verbatim>\<open>Complete\<close>, and \<^verbatim>\<open>return nil\<close> of \<^verbatim>\<open>NextStages\<close>.\<close>

definition Complete_method :: "('s, 'e, 'c, 'ty) machine \<Rightarrow> 'e exit \<times> ('s, 'e, 'c, 'ty) machine" where
  "Complete_method m = (Returns, m)"

definition NextStages_method ::
  "('s, 'e, 'c, 'ty) machine \<Rightarrow> ('c, 'e, 'ty) baseStage list \<times> ('s, 'e, 'c, 'ty) machine" where
  "NextStages_method m = ([], m)"

section \<open>Histories of calls on one stage\<close>

text \<open>
  A history is a list of calls made on one stage object; \<open>invoke\<close> gives the stage and the
  world that the called method leaves behind. A panic that escapes \<^verbatim>\<open>Execute\<close> is taken to
  be recovered by the caller, who goes on with the history.
\<close>

datatype ('s, 'e) call =
  CallType
| CallExecute "('s, 'e) PlanNode" "'s \<Rightarrow> 's" "'e \<Rightarrow> 's \<Rightarrow> 's"
| CallExecuteTree "('s, 'e) PlanNode"
| CallComplete
| CallNextStages

fun invoke :: "('s, 'e) call \<Rightarrow> ('s, 'e, 'c, 'ty) machine \<Rightarrow> ('s, 'e, 'c, 'ty) machine" where
  "invoke CallType m = snd (Type_method m)"
| "invoke (CallExecute node completeHandle errHandle) m =
     snd (Execute_method node completeHandle errHandle m)"
| "invoke (CallExecuteTree node) m = snd (execute_method node m)"
| "invoke CallComplete m = snd (Complete_method m)"
| "invoke CallNextStages m = snd (NextStages_method m)"

fun run_calls ::
  "('s, 'e) call list \<Rightarrow> ('s, 'e, 'c, 'ty) machine \<Rightarrow> ('s, 'e, 'c, 'ty) machine" where
  "run_calls [] m = m"
| "run_calls (c # cs) m = run_calls cs (invoke c m)"

section \<open>Reading the trace\<close>

text \<open>The events that a step from \<open>w\<close> to \<open>w'\<close> added to the trace.\<close>

definition emitted :: "('s, 'e, 'c) world \<Rightarrow> ('s, 'e, 'c) world \<Rightarrow> 'e event list" where
  "emitted w w' = drop (length (trace w)) (trace w')"

fun is_continuation :: "'e event \<Rightarrow> bool" where
  "is_continuation (Ran i) = False"
| "is_continuation Completed = True"
| "is_continuation (Errored err) = True"

definition continuations :: "'e event list \<Rightarrow> 'e event list" where
  "continuations evs = filter is_continuation evs"

text \<open>The continuation call that \<^verbatim>\<open>execFn\<close> makes for a result of the traversal.\<close>

fun report :: "'e outcome \<Rightarrow> 'e event list" where
  "report Ok = [Completed]"
| "report (Failed err) = [Errored err]"
| "report (Panic p) = []"

section \<open>Depth-first pre-order, as the specification words it\<close>

text \<open>
  The specification's order: a node before its children, the children in declaration
  order, an absent node contributing nothing. \<open>preorder\<close> lists the node objects of a tree
  in that order, each with its label and its \<^verbatim>\<open>Execute\<close>.
\<close>

fun preorder :: "('s, 'e) PlanNode \<Rightarrow> (nat \<times> ('s \<Rightarrow> 'e outcome \<times> 's)) list"
and preorder_list :: "('s, 'e) PlanNode list \<Rightarrow> (nat \<times> ('s \<Rightarrow> 'e outcome \<times> 's)) list" where
  "preorder NilNode = []"
| "preorder (Node i f children) = (i, f) # preorder_list children"
| "preorder_list [] = []"
| "preorder_list (child # rest) = preorder child @ preorder_list rest"

text \<open>Running a sequence of nodes one after the other, up to the first that does not succeed.\<close>

fun run_seq ::
  "(nat \<times> ('s \<Rightarrow> 'e outcome \<times> 's)) list \<Rightarrow> ('s, 'e, 'c) world
     \<Rightarrow> 'e outcome \<times> ('s, 'e, 'c) world" where
  "run_seq [] w = (Ok, w)"
| "run_seq ((i, f) # ns) w =
     (case node_Execute i f w of
        (Ok, w') \<Rightarrow> run_seq ns w'
      | (Failed err, w') \<Rightarrow> (Failed err, w')
      | (Panic p, w') \<Rightarrow> (Panic p, w'))"

text \<open>The labels of the nodes of a sequence that such a run invokes, from a given store.\<close>

fun executed :: "(nat \<times> ('s \<Rightarrow> 'e outcome \<times> 's)) list \<Rightarrow> 's \<Rightarrow> nat list" where
  "executed [] s = []"
| "executed ((i, f) # ns) s =
     i # (case f s of (Ok, s') \<Rightarrow> executed ns s' | (Failed err, s') \<Rightarrow> [] | (Panic p, s') \<Rightarrow> [])"

text \<open>
  The results that the nodes of a sequence return in such a run, one after the other: the
  run ends with the first result that is not \<^verbatim>\<open>nil\<close>. \<open>verdict\<close> is that first result, and
  \<^verbatim>\<open>nil\<close> when there is none.
\<close>

fun results :: "(nat \<times> ('s \<Rightarrow> 'e outcome \<times> 's)) list \<Rightarrow> 's \<Rightarrow> 'e outcome list" where
  "results [] s = []"
| "results ((i, f) # ns) s =
     (case f s of
        (Ok, s') \<Rightarrow> Ok # results ns s'
      | (Failed err, s') \<Rightarrow> [Failed err]
      | (Panic p, s') \<Rightarrow> [Panic p])"

fun verdict :: "'e outcome list \<Rightarrow> 'e outcome" where
  "verdict [] = Ok"
| "verdict (Ok # rs) = verdict rs"
| "verdict (Failed err # rs) = Failed err"
| "verdict (Panic p # rs) = Panic p"

section \<open>Example inputs\<close>

text \<open>
  The store is a counter, errors are numbers. \<open>treeABC\<close> is the scenario of a parent A
  with the children B and C where B fails; in \<open>treePanic\<close> the first child panics.
\<close>

definition world0 :: "(nat, nat, unit) world" where
  "world0 = \<lparr>store = 0, trace = [], pending = []\<rparr>"

definition nodeB :: "(nat, nat) PlanNode" where
  "nodeB = Node 2 (Pair (Failed 7)) []"

definition nodeC :: "(nat, nat) PlanNode" where
  "nodeC = Node 3 (Pair Ok) []"

definition treeABC :: "(nat, nat) PlanNode" where
  "treeABC = Node 1 (Pair Ok) [nodeB, nodeC]"

definition treeOk :: "(nat, nat) PlanNode" where
  "treeOk = Node 1 (Pair Ok) [nodeC, NilNode, Node 4 (Pair Ok) []]"

definition treePanic :: "(nat, nat) PlanNode" where
  "treePanic = Node 1 (Pair Ok) [Node 2 (Pair (Panic 9)) [], nodeC]"

definition inlineStage :: "(unit, nat, nat) baseStage" where
  "inlineStage = \<lparr>ctx = None, stageType = 0, execPool = None\<rparr>"

definition admitting :: "(unit, nat) Pool" where
  "admitting = \<lparr>admission = (\<lambda>c. None)\<rparr>"

definition rejecting :: "(unit, nat) Pool" where
  "rejecting = \<lparr>admission = (\<lambda>c. Some 5)\<rparr>"

definition pooledStage :: "(unit, nat, nat) baseStage" where
  "pooledStage = \<lparr>ctx = Some (), stageType = 0, execPool = Some admitting\<rparr>"

text \<open>
  Continuations that leave the store alone, a stage whose pool rejects, and a stage with a
  context but no pool.
\<close>

definition keep :: "nat \<Rightarrow> nat \<Rightarrow> nat" where
  "keep err s = s"

definition rejectingStage :: "(unit, nat, nat) baseStage" where
  "rejectingStage = \<lparr>ctx = Some (), stageType = 1, execPool = Some rejecting\<rparr>"

definition contextOnlyStage :: "(unit, nat, nat) baseStage" where
  "contextOnlyStage = \<lparr>ctx = Some (), stageType = 2, execPool = None\<rparr>"

text \<open>
  Nodes whose result depends on the store: the parent counts up, and the child succeeds
  only on the store that the parent leaves when it starts from zero.
\<close>

definition bump :: "nat \<Rightarrow> nat outcome \<times> nat" where
  "bump s = (Ok, Suc s)"

definition atOne :: "nat \<Rightarrow> nat outcome \<times> nat" where
  "atOne s = (if s = 1 then Ok else Failed 7, s)"

definition treeCount :: "(nat, nat) PlanNode" where
  "treeCount = Node 1 bump [Node 2 atOne []]"

section \<open>The traversal is the sequential run over the pre-order\<close>

lemma run_seq_append:
  "run_seq (xs @ ys) w =
     (case run_seq xs w of
        (Ok, w') \<Rightarrow> run_seq ys w'
      | (Failed err, w') \<Rightarrow> (Failed err, w')
      | (Panic p, w') \<Rightarrow> (Panic p, w'))"
  by (induction xs arbitrary: w) (auto split: prod.splits outcome.splits)

lemma execute_run_seq:
  "execute node w = run_seq (preorder node) w"
  "execute_children children w = run_seq (preorder_list children) w"
  by (induction node w and children w rule: execute_execute_children.induct)
     (auto simp: run_seq_append split: prod.splits outcome.splits)

lemma run_seq_trace:
  "trace (snd (run_seq ns w)) = trace w @ map Ran (executed ns (store w))"
  by (induction ns arbitrary: w) (auto simp: node_Execute_def split: prod.splits outcome.splits)

lemma run_seq_pending:
  "pending (snd (run_seq ns w)) = pending w"
  by (induction ns arbitrary: w) (auto simp: node_Execute_def split: prod.splits outcome.splits)

lemma executed_take:
  "\<exists>k\<le>length ns. executed ns s = take k (map fst ns)"
proof (induction ns arbitrary: s)
  case Nil
  then show ?case by simp
next
  case (Cons n ns)
  obtain i f where n: "n = (i, f)" by (cases n)
  obtain r s' where fs: "f s = (r, s')" by (cases "f s")
  show ?case
  proof (cases r)
    case Ok
    from Cons.IH [of s'] obtain k where "k \<le> length ns" "executed ns s' = take k (map fst ns)"
      by blast
    then have "Suc k \<le> length (n # ns) \<and> executed (n # ns) s = take (Suc k) (map fst (n # ns))"
      using n fs Ok by simp
    then show ?thesis by blast
  next
    case (Failed e)
    then have "Suc 0 \<le> length (n # ns) \<and> executed (n # ns) s = take (Suc 0) (map fst (n # ns))"
      using n fs by simp
    then show ?thesis by blast
  next
    case (Panic p)
    then have "Suc 0 \<le> length (n # ns) \<and> executed (n # ns) s = take (Suc 0) (map fst (n # ns))"
      using n fs by simp
    then show ?thesis by blast
  qed
qed


lemma executed_append_Ok:
  "run_seq pre w = (Ok, w1) \<Longrightarrow>
   executed (pre @ post) (store w) = map fst pre @ executed post (store w1)"
proof (induction pre arbitrary: w)
  case Nil
  then show ?case by simp
next
  case (Cons n pre)
  obtain i f where n: "n = (i, f)" by (cases n)
  obtain r s' where fs: "f (store w) = (r, s')" by (cases "f (store w)")
  let ?w' = "w\<lparr>store := s', trace := trace w @ [Ran i]\<rparr>"
  from Cons.prems n fs have r: "r = Ok"
    by (cases r) (simp_all add: node_Execute_def)
  with Cons.prems n fs have "run_seq pre ?w' = (Ok, w1)"
    by (simp add: node_Execute_def)
  from Cons.IH [OF this] have "executed (pre @ post) s' = map fst pre @ executed post (store w1)"
    by simp
  with n fs r show ?case by simp
qed


lemma emitted_append: "trace w' = trace w @ evs \<Longrightarrow> emitted w w' = evs"
  by (simp add: emitted_def)

lemma execute_emitted:
  "emitted w (snd (execute node w)) = map Ran (executed (preorder node) (store w))"
  by (simp add: execute_run_seq emitted_append run_seq_trace)

lemma distinct_count_list: "distinct xs \<Longrightarrow> count_list xs x = (if x \<in> set xs then 1 else 0)"
  by (induction xs) auto

lemma distinct_executed:
  assumes "distinct (map fst ns)"
  shows "distinct (map Ran (executed ns s))"
proof -
  obtain k where "executed ns s = take k (map fst ns)"
    using executed_take [of ns s] by blast
  with assms have "distinct (executed ns s)" by simp
  then show ?thesis by (simp add: distinct_map inj_on_def)
qed

lemma length_executed: "length (executed ns s) \<le> length ns"
proof -
  obtain k where "k \<le> length ns" "executed ns s = take k (map fst ns)"
    using executed_take [of ns s] by blast
  then show ?thesis by simp
qed


lemma run_seq_store_frame:
  "\<forall>n\<in>set ns. \<forall>s. snd (snd n s) = s \<Longrightarrow> store (snd (run_seq ns w)) = store w"
proof (induction ns arbitrary: w)
  case Nil
  then show ?case by simp
next
  case (Cons n ns)
  obtain i f where n: "n = (i, f)" by (cases n)
  obtain r s' where fs: "f (store w) = (r, s')" by (cases "f (store w)")
  from Cons.prems n have "snd (f (store w)) = store w" by simp
  with fs have s': "s' = store w" by simp
  from Cons.prems have "\<forall>n\<in>set ns. \<forall>s. snd (snd n s) = s" by simp
  from Cons.IH [OF this, of "w\<lparr>store := s', trace := trace w @ [Ran i]\<rparr>"] show ?case
    using n fs s' by (cases r) (simp_all add: node_Execute_def)
qed

section \<open>The closure, the task and the stage\<close>

lemma continuations_Ran [simp]: "continuations (map Ran xs @ evs) = continuations evs"
  by (induction xs) (simp_all add: continuations_def)

lemma continuations_report [simp]: "continuations (report r) = report r"
  by (cases r) (simp_all add: continuations_def)

lemma execute_trace:
  "trace (snd (execute node w)) = trace w @ map Ran (executed (preorder node) (store w))"
  by (simp add: execute_run_seq run_seq_trace)

lemma execute_pending: "pending (snd (execute node w)) = pending w"
  by (simp add: execute_run_seq run_seq_pending)

lemma execFn_emitted:
  "emitted w (snd (execFn node completeHandle errHandle w))
     = map Ran (executed (preorder node) (store w)) @ report (fst (execute node w))"
proof -
  obtain r w' where ex: "execute node w = (r, w')" by (cases "execute node w")
  have "trace w' = trace w @ map Ran (executed (preorder node) (store w))"
    using execute_trace [of node w] ex by simp
  then show ?thesis
    using ex by (cases r) (simp_all add: execFn_def emitted_def call_complete_def call_err_def)
qed

lemma execFn_pending: "pending (snd (execFn node completeHandle errHandle w)) = pending w"
proof -
  obtain r w' where ex: "execute node w = (r, w')" by (cases "execute node w")
  have "pending w' = pending w"
    using execute_pending [of node w] ex by simp
  then show ?thesis
    using ex by (cases r) (simp_all add: execFn_def call_complete_def call_err_def)
qed

lemma execFn_exit:
  "fst (execFn node completeHandle errHandle w)
     = (case fst (execute node w) of Ok \<Rightarrow> Returns | Failed err \<Rightarrow> Returns | Panic p \<Rightarrow> Panics p)"
  by (simp add: execFn_def split: prod.splits outcome.splits)

lemma Exec_emitted:
  "emitted w (Exec (NewTask (ExecFn node completeHandle errHandle) onPanic) w)
     = map Ran (executed (preorder node) (store w))
       @ (case fst (execute node w) of
            Ok \<Rightarrow> [Completed] | Failed err \<Rightarrow> [Errored err] | Panic p \<Rightarrow> [Errored p])"
proof -
  obtain r w' where ex: "execute node w = (r, w')" by (cases "execute node w")
  have "trace w' = trace w @ map Ran (executed (preorder node) (store w))"
    using execute_trace [of node w] ex by simp
  then show ?thesis
    using ex
    by (cases r) (simp_all add: Exec_def execFn_def emitted_def call_complete_def call_err_def)
qed

lemma Exec_returning:
  "fst (execFn node completeHandle errHandle w) = Returns \<Longrightarrow>
   Exec (NewTask (ExecFn node completeHandle errHandle) onPanic) w
     = snd (execFn node completeHandle errHandle w)"
  by (cases "execFn node completeHandle errHandle w") (auto simp: Exec_def split: exit.splits)

lemma process_emitted:
  "emitted w (process (pool, c, NewTask (ExecFn node completeHandle errHandle) onPanic) w)
     = (case admission pool c of
          Some rejection \<Rightarrow> [Errored rejection]
        | None \<Rightarrow> map Ran (executed (preorder node) (store w))
            @ (case fst (execute node w) of
                 Ok \<Rightarrow> [Completed] | Failed err \<Rightarrow> [Errored err] | Panic p \<Rightarrow> [Errored p]))"
proof (cases "admission pool c")
  case None
  then show ?thesis by (simp add: process_def Exec_emitted)
next
  case (Some rejection)
  then show ?thesis by (simp add: process_def call_err_def emitted_def)
qed

lemma process_one_continuation:
  "length (continuations
     (emitted w (process (pool, c, NewTask (ExecFn node completeHandle errHandle) onPanic) w))) = 1"
  by (simp add: process_emitted continuations_def split: option.splits outcome.splits)

lemma Execute_sync:
  "execPool stage = None \<or> ctx stage = None \<Longrightarrow>
   Execute stage node completeHandle errHandle w = execFn node completeHandle errHandle w"
  by (simp add: Execute_def)

lemma Execute_async:
  "execPool stage = Some pool \<Longrightarrow> ctx stage = Some c \<Longrightarrow>
   Execute stage node completeHandle errHandle w
     = (Returns, w\<lparr>pending := pending w
          @ [(pool, c, NewTask (ExecFn node completeHandle errHandle) errHandle)]\<rparr>)"
  by (simp add: Execute_def Submit_def)

lemma execute_method_agrees:
  "execute_method node (stage, w) = (fst (execute node w), (stage, snd (execute node w)))"
  "execute_children_method children (stage, w)
     = (fst (execute_children children w), (stage, snd (execute_children children w)))"
  by (induction node w and children w rule: execute_execute_children.induct)
     (auto split: prod.splits outcome.splits)

lemma execFn_method_agrees:
  "execFn_method node completeHandle errHandle (stage, w)
     = (fst (execFn node completeHandle errHandle w),
        (stage, snd (execFn node completeHandle errHandle w)))"
  by (cases "execute node w")
     (simp add: execFn_method_def execFn_def execute_method_agrees split: outcome.splits)

lemma Execute_method_agrees:
  "Execute_method node completeHandle errHandle (stage, w)
     = (fst (Execute stage node completeHandle errHandle w),
        (stage, snd (Execute stage node completeHandle errHandle w)))"
  by (simp add: Execute_method_def Execute_def execFn_method_agrees Submit_def)

lemma invoke_stage: "fst (invoke c m) = fst m"
  by (cases m, cases c)
     (simp_all add: Type_method_def Execute_method_agrees execute_method_agrees
        Complete_method_def NextStages_method_def)

lemma run_calls_stage: "fst (run_calls cs m) = fst m"
  by (induction cs arbitrary: m) (simp_all add: invoke_stage)

lemma verdict_results: "fst (run_seq ns w) = verdict (results ns (store w))"
proof (induction ns arbitrary: w)
  case Nil
  then show ?case by simp
next
  case (Cons n ns)
  obtain i f where n: "n = (i, f)" by (cases n)
  obtain r s' where fs: "f (store w) = (r, s')" by (cases "f (store w)")
  show ?case
    using Cons.IH [of "w\<lparr>store := s', trace := trace w @ [Ran i]\<rparr>"] n fs
    by (cases r) (simp_all add: node_Execute_def)
qed


lemma execute_verdict: "fst (execute node w) = verdict (results (preorder node) (store w))"
  by (simp add: execute_run_seq verdict_results)

section \<open>Traversal order\<close>

text \<open>
  C3. \<open>execute\<close> runs the \<^verbatim>\<open>Execute\<close> methods in strict depth-first pre-order: it is the
  sequential run over the pre-order listing of the tree, so what it invokes is an initial
  segment of that listing. A node's own \<^verbatim>\<open>Execute\<close> runs before its children are visited; if
  it does not succeed, nothing but the node itself has run. The children are visited in
  slice order, and a child that does not succeed ends the loop, so that its later siblings
  are not visited.
\<close>

theorem execute_depth_first_preorder:
  "execute node w = run_seq (preorder node) w
   \<and> emitted w (snd (execute node w)) = map Ran (executed (preorder node) (store w))
   \<and> (\<exists>k\<le>length (preorder node).
         executed (preorder node) (store w) = take k (map fst (preorder node)))
   \<and> (fst (f (store w)) = Ok \<longrightarrow>
         execute (Node i f children) w = execute_children children (snd (node_Execute i f w)))
   \<and> (fst (f (store w)) \<noteq> Ok \<longrightarrow>
         execute (Node i f children) w = node_Execute i f w
         \<and> emitted w (snd (execute (Node i f children) w)) = [Ran i])
   \<and> (fst (execute child w) = Ok \<longrightarrow>
         execute_children (child # rest) w = execute_children rest (snd (execute child w)))
   \<and> (fst (execute child w) \<noteq> Ok \<longrightarrow>
         execute_children (child # rest) w = execute child w)"
proof -
  have own_ok: "fst (f (store w)) = Ok \<longrightarrow>
      execute (Node i f children) w = execute_children children (snd (node_Execute i f w))"
    by (auto simp: node_Execute_def split: prod.splits outcome.splits)
  have own_fail: "fst (f (store w)) \<noteq> Ok \<longrightarrow>
      execute (Node i f children) w = node_Execute i f w
      \<and> emitted w (snd (execute (Node i f children) w)) = [Ran i]"
    by (auto simp: node_Execute_def emitted_def split: prod.splits outcome.splits)
  have child_ok: "fst (execute child w) = Ok \<longrightarrow>
      execute_children (child # rest) w = execute_children rest (snd (execute child w))"
    by (auto split: prod.splits outcome.splits)
  have child_fail: "fst (execute child w) \<noteq> Ok \<longrightarrow>
      execute_children (child # rest) w = execute child w"
    by (auto split: prod.splits outcome.splits)
  show ?thesis
    using execute_run_seq(1) [of node w] execute_emitted [of w node]
      executed_take [of "preorder node" "store w"] own_ok own_fail child_ok child_fail
    by blast
qed

theorem execute_depth_first_preorder_witness:
  "fst (Pair Ok (store world0)) = Ok
   \<and> execute treeABC world0 = execute_children [nodeB, nodeC] (snd (node_Execute 1 (Pair Ok) world0))
   \<and> fst (execute nodeB world0) \<noteq> Ok
   \<and> execute_children [nodeB, nodeC] world0 = execute nodeB world0
   \<and> emitted world0 (snd (execute treeABC world0)) = [Ran 1, Ran 2]
   \<and> fst (Pair (Failed 7) (store world0)) \<noteq> (Ok :: nat outcome)
   \<and> emitted world0 (snd (execute nodeB world0)) = [Ran 2]
   \<and> fst (execute nodeC world0) = Ok
   \<and> execute_children [nodeC, nodeB] world0 = execute_children [nodeB] (snd (execute nodeC world0))"
  using execute_depth_first_preorder
          [where node = treeABC and w = world0 and f = "Pair Ok" and i = 1
             and children = "[nodeB, nodeC]" and child = nodeB and rest = "[nodeC]"]
        execute_depth_first_preorder
          [where node = nodeB and w = world0 and f = "Pair (Failed 7)" and i = 2
             and children = "[]" and child = nodeC and rest = "[nodeB]"]
  by (simp add: world0_def nodeB_def nodeC_def treeABC_def node_Execute_def emitted_def)

section \<open>Absent nodes\<close>




section \<open>Termination and single invocation\<close>

text \<open>
  C6. \<open>execute\<close> is a total function, defined by recursion on the finite tree, and it invokes
  no more \<^verbatim>\<open>Execute\<close> methods than the tree has nodes. In a tree (no node object occurs at
  two places, that is, the labels are distinct) every node is invoked at most once during
  one execution, and exactly once when all the nodes before it in pre-order succeed.
\<close>

theorem execute_each_node_at_most_once:
  assumes "distinct (map fst (preorder node))"
  shows "length (emitted w (snd (execute node w))) \<le> length (preorder node)
   \<and> count_list (emitted w (snd (execute node w))) (Ran i) \<le> 1
   \<and> (preorder node = pre @ (i, f) # post \<and> run_seq pre w = (Ok, w1) \<longrightarrow>
        count_list (emitted w (snd (execute node w))) (Ran i) = 1)"
proof -
  let ?evs = "emitted w (snd (execute node w))"
  have evs: "?evs = map Ran (executed (preorder node) (store w))"
    by (rule execute_emitted)
  have bound: "length ?evs \<le> length (preorder node)"
    by (simp add: evs length_executed)
  have dist: "distinct ?evs"
    unfolding evs using assms by (rule distinct_executed)
  have once: "count_list ?evs (Ran i) \<le> 1"
    by (simp add: distinct_count_list [OF dist])
  have exact: "count_list ?evs (Ran i) = 1"
    if split: "preorder node = pre @ (i, f) # post" and pre: "run_seq pre w = (Ok, w1)"
  proof -
    have "executed (preorder node) (store w) = map fst pre @ executed ((i, f) # post) (store w1)"
      unfolding split by (rule executed_append_Ok [OF pre])
    then have "Ran i \<in> set ?evs" by (simp add: evs)
    then show ?thesis by (simp add: distinct_count_list [OF dist])
  qed
  from bound once exact show ?thesis by blast
qed

theorem execute_each_node_at_most_once_witness:
  "distinct (map fst (preorder treeABC))
   \<and> preorder treeABC = [(1, Pair Ok)] @ (2, Pair (Failed 7)) # [(3, Pair Ok)]
   \<and> run_seq [(1, Pair Ok)] world0 = (Ok, world0\<lparr>trace := [Ran 1]\<rparr>)
   \<and> length (emitted world0 (snd (execute treeABC world0))) \<le> length (preorder treeABC)
   \<and> count_list (emitted world0 (snd (execute treeABC world0))) (Ran 2) = 1
   \<and> count_list (emitted world0 (snd (execute treeABC world0))) (Ran 3) \<le> 1"
proof -
  have d: "distinct (map fst (preorder treeABC))"
    by (simp add: world0_def nodeB_def nodeC_def treeABC_def)
  show ?thesis
    using d
      execute_each_node_at_most_once
        [OF d, where w = world0 and i = 2 and pre = "[(1, Pair Ok)]" and f = "Pair (Failed 7)"
           and post = "[(3, Pair Ok)]" and ?w1.0 = "world0\<lparr>trace := [Ran 1]\<rparr>"]
      execute_each_node_at_most_once [OF d, where w = world0 and i = 3]
    by (simp add: world0_def nodeB_def nodeC_def treeABC_def node_Execute_def emitted_def)
qed

section \<open>What the continuations receive\<close>




section \<open>One continuation for each execution\<close>








section \<open>Inline or submitted\<close>

lemma Execute_not_inline:
  assumes "execPool stage = Some pool" and "ctx stage = Some c"
  shows "Execute stage node completeHandle errHandle w \<noteq> execFn node completeHandle errHandle w"
proof
  assume eq: "Execute stage node completeHandle errHandle w
    = execFn node completeHandle errHandle w"
  have "pending (snd (Execute stage node completeHandle errHandle w))
      = pending w @ [(pool, c, NewTask (ExecFn node completeHandle errHandle) errHandle)]"
    by (simp add: Execute_async [OF assms])
  with eq have "pending (snd (execFn node completeHandle errHandle w))
      = pending w @ [(pool, c, NewTask (ExecFn node completeHandle errHandle) errHandle)]"
    by simp
  then show False by (simp add: execFn_pending)
qed

lemma execFn_one_continuation:
  "fst (execFn node completeHandle errHandle w) = Returns \<Longrightarrow>
   length (continuations (emitted w (snd (execFn node completeHandle errHandle w)))) = 1"
  by (cases "fst (execute node w)") (simp_all add: execFn_emitted execFn_exit continuations_def)

lemma process_admitted:
  "admission pool c = None \<Longrightarrow> fst (execFn node completeHandle errHandle w) = Returns \<Longrightarrow>
   process (pool, c, NewTask (ExecFn node completeHandle errHandle) onPanic) w
     = snd (execFn node completeHandle errHandle w)"
  by (simp add: process_def Exec_returning)

text \<open>
  C4. \<^verbatim>\<open>Execute\<close> runs the traversal itself exactly when the pool or the context of the
  stage is \<^verbatim>\<open>nil\<close>; then the pending submissions stay as they are, and when the call returns
  exactly one continuation has been invoked. Otherwise it submits one task to the pool
  under the context of the stage and returns: the store and the trace are as before, so no
  node and no continuation has run, and the task waits among the pending submissions.
  When the pool takes the submission up, exactly one continuation is invoked, and a task
  that is admitted and returns leaves the world that the inline run would have left.
\<close>

theorem Execute_inline_iff_no_pool_or_context:
  "(Execute stage node completeHandle errHandle w = execFn node completeHandle errHandle w)
     = (execPool stage = None \<or> ctx stage = None)
   \<and> pending (snd (execFn node completeHandle errHandle w)) = pending w
   \<and> ((execPool stage = None \<or> ctx stage = None)
        \<and> fst (Execute stage node completeHandle errHandle w) = Returns \<longrightarrow>
        length (continuations
          (emitted w (snd (Execute stage node completeHandle errHandle w)))) = 1)
   \<and> (execPool stage = Some pool \<and> ctx stage = Some c \<longrightarrow>
        Execute stage node completeHandle errHandle w
          = Submit pool c (NewTask (ExecFn node completeHandle errHandle) errHandle) w
        \<and> fst (Execute stage node completeHandle errHandle w) = Returns
        \<and> store (snd (Execute stage node completeHandle errHandle w)) = store w
        \<and> trace (snd (Execute stage node completeHandle errHandle w)) = trace w
        \<and> pending (snd (Execute stage node completeHandle errHandle w))
          = pending w @ [(pool, c, NewTask (ExecFn node completeHandle errHandle) errHandle)]
        \<and> length (continuations (emitted w'
            (process (pool, c, NewTask (ExecFn node completeHandle errHandle) errHandle) w'))) = 1
        \<and> (admission pool c = None \<and> fst (execFn node completeHandle errHandle w') = Returns \<longrightarrow>
            process (pool, c, NewTask (ExecFn node completeHandle errHandle) errHandle) w'
              = snd (execFn node completeHandle errHandle w')))"
proof -
  have iff: "(Execute stage node completeHandle errHandle w
        = execFn node completeHandle errHandle w)
      = (execPool stage = None \<or> ctx stage = None)"
  proof (cases "execPool stage = None \<or> ctx stage = None")
    case True
    then show ?thesis by (simp add: Execute_sync)
  next
    case False
    then obtain pool' c' where some: "execPool stage = Some pool'" "ctx stage = Some c'" by auto
    have "Execute stage node completeHandle errHandle w
        \<noteq> execFn node completeHandle errHandle w"
      by (rule Execute_not_inline [OF some])
    with False show ?thesis by blast
  qed
  have inline: "length (continuations
        (emitted w (snd (Execute stage node completeHandle errHandle w)))) = 1"
    if "execPool stage = None \<or> ctx stage = None"
      and "fst (Execute stage node completeHandle errHandle w) = Returns"
    using that(2) unfolding Execute_sync [OF that(1)] by (rule execFn_one_continuation)
  have pooled:
    "Execute stage node completeHandle errHandle w
          = Submit pool c (NewTask (ExecFn node completeHandle errHandle) errHandle) w
        \<and> fst (Execute stage node completeHandle errHandle w) = Returns
        \<and> store (snd (Execute stage node completeHandle errHandle w)) = store w
        \<and> trace (snd (Execute stage node completeHandle errHandle w)) = trace w
        \<and> pending (snd (Execute stage node completeHandle errHandle w))
          = pending w @ [(pool, c, NewTask (ExecFn node completeHandle errHandle) errHandle)]
        \<and> length (continuations (emitted w'
            (process (pool, c, NewTask (ExecFn node completeHandle errHandle) errHandle) w'))) = 1
        \<and> (admission pool c = None \<and> fst (execFn node completeHandle errHandle w') = Returns \<longrightarrow>
            process (pool, c, NewTask (ExecFn node completeHandle errHandle) errHandle) w'
              = snd (execFn node completeHandle errHandle w'))"
    if "execPool stage = Some pool" "ctx stage = Some c"
    by (simp add: Execute_async [OF that] Submit_def process_one_continuation process_admitted)
  show ?thesis
    by (intro conjI impI iff execFn_pending inline pooled; (elim conjE)?; assumption)
qed

theorem Execute_inline_iff_no_pool_or_context_witness:
  "Execute inlineStage treeOk Suc plus world0 = execFn treeOk Suc plus world0
   \<and> Execute contextOnlyStage treeOk Suc plus world0 = execFn treeOk Suc plus world0
   \<and> length (continuations
        (emitted world0 (snd (Execute inlineStage treeOk Suc plus world0)))) = 1
   \<and> Execute pooledStage treeOk Suc plus world0 \<noteq> execFn treeOk Suc plus world0
   \<and> trace (snd (Execute pooledStage treeOk Suc plus world0)) = []
   \<and> store (snd (Execute pooledStage treeOk Suc plus world0)) = 0
   \<and> pending (snd (Execute pooledStage treeOk Suc plus world0))
       = [(admitting, (), NewTask (ExecFn treeOk Suc plus) plus)]
   \<and> process (admitting, (), NewTask (ExecFn treeOk Suc plus) plus) world0
       = snd (execFn treeOk Suc plus world0)
   \<and> trace (snd (execFn treeOk Suc plus world0)) = [Ran 1, Ran 3, Ran 4, Completed]"
proof -
  note inst = Execute_inline_iff_no_pool_or_context
      [where node = treeOk and completeHandle = Suc and errHandle = plus and w = world0
         and w' = world0 and pool = admitting and c = "()"]
  have sync: "execPool inlineStage = None \<or> ctx inlineStage = None"
    and sync': "execPool contextOnlyStage = None \<or> ctx contextOnlyStage = None"
    and async: "execPool pooledStage = Some admitting \<and> ctx pooledStage = Some ()"
    and not_sync: "\<not> (execPool pooledStage = None \<or> ctx pooledStage = None)"
    and admits: "admission admitting () = None"
    by (simp_all add: world0_def nodeC_def treeOk_def inlineStage_def admitting_def
          pooledStage_def contextOnlyStage_def)
  have run: "execFn treeOk Suc plus world0
      = (Returns, \<lparr>store = 1, trace = [Ran 1, Ran 3, Ran 4, Completed], pending = []\<rparr>)"
    by (simp add: world0_def nodeC_def treeOk_def inlineStage_def admitting_def pooledStage_def
          contextOnlyStage_def execFn_def node_Execute_def call_complete_def)
  have ret: "fst (execFn treeOk Suc plus world0) = Returns"
    by (simp add: run)
  have a: "Execute inlineStage treeOk Suc plus world0 = execFn treeOk Suc plus world0"
    using inst [where stage = inlineStage, THEN conjunct1] sync by (rule iffD2)
  have a': "Execute contextOnlyStage treeOk Suc plus world0 = execFn treeOk Suc plus world0"
    using inst [where stage = contextOnlyStage, THEN conjunct1] sync' by (rule iffD2)
  from a ret have ret': "fst (Execute inlineStage treeOk Suc plus world0) = Returns"
    by simp
  note b = mp [OF inst [where stage = inlineStage, THEN conjunct2, THEN conjunct2, THEN conjunct1]
      conjI [OF sync ret']]
  have c: "Execute pooledStage treeOk Suc plus world0 \<noteq> execFn treeOk Suc plus world0"
    using inst [where stage = pooledStage, THEN conjunct1] not_sync by simp
  note d = mp [OF inst [where stage = pooledStage, THEN conjunct2, THEN conjunct2, THEN conjunct2]
      async]
  have w0: "store world0 = 0" "trace world0 = []" "pending world0 = []"
    by (simp_all add: world0_def)
  note d_store = d [THEN conjunct2, THEN conjunct2, THEN conjunct1, unfolded w0]
  note d_trace = d [THEN conjunct2, THEN conjunct2, THEN conjunct2, THEN conjunct1, unfolded w0]
  note d_pending = d [THEN conjunct2, THEN conjunct2, THEN conjunct2, THEN conjunct2,
      THEN conjunct1, unfolded w0 append_Nil]
  note e = mp [OF d [THEN conjunct2, THEN conjunct2, THEN conjunct2, THEN conjunct2,
        THEN conjunct2, THEN conjunct2]
      conjI [OF admits ret]]
  have f: "trace (snd (execFn treeOk Suc plus world0)) = [Ran 1, Ran 3, Ran 4, Completed]"
    by (simp add: run)
  from a a' b c d_trace d_store d_pending e f show ?thesis
    by (intro conjI)
qed

section \<open>Faults of the pool reach the error continuation\<close>

text \<open>
  C7. On the asynchronous path the submitted task carries the caller's \<^verbatim>\<open>errHandle\<close> as its
  error-continuation. A rejected submission and a panic inside the action therefore invoke
  that same \<^verbatim>\<open>errHandle\<close>, as the error returned by a node does.
\<close>

theorem errHandle_is_error_continuation:
  "execPool stage = Some pool \<and> ctx stage = Some c \<longrightarrow>
     Execute stage node completeHandle errHandle w
       = Submit pool c (NewTask (ExecFn node completeHandle errHandle) errHandle) w
     \<and> panicHandle (NewTask (ExecFn node completeHandle errHandle) errHandle) = errHandle
     \<and> (admission pool c = Some rejection \<longrightarrow>
          process (pool, c, NewTask (ExecFn node completeHandle errHandle) errHandle) w'
            = call_err errHandle rejection w')
     \<and> (admission pool c = None \<and> execute node w' = (Panic p, w'') \<longrightarrow>
          process (pool, c, NewTask (ExecFn node completeHandle errHandle) errHandle) w'
            = call_err errHandle p w'')
     \<and> (admission pool c = None \<and> execute node w' = (Failed err, w'') \<longrightarrow>
          process (pool, c, NewTask (ExecFn node completeHandle errHandle) errHandle) w'
            = call_err errHandle err w'')"
  by (simp add: Execute_def process_def Exec_def execFn_def)

theorem errHandle_is_error_continuation_witness:
  "Execute rejectingStage treeOk Suc plus world0
     = Submit rejecting () (NewTask (ExecFn treeOk Suc plus) plus) world0
   \<and> process (rejecting, (), NewTask (ExecFn treeOk Suc plus) plus) world0
     = call_err plus 5 world0
   \<and> trace (call_err plus 5 world0) = [Errored 5]
   \<and> process (admitting, (), NewTask (ExecFn treePanic Suc plus) plus) world0
     = call_err plus 9 (world0\<lparr>trace := [Ran 1, Ran 2]\<rparr>)
   \<and> process (admitting, (), NewTask (ExecFn treeABC Suc plus) plus) world0
     = call_err plus 7 (world0\<lparr>trace := [Ran 1, Ran 2]\<rparr>)"
proof -
  let ?w2 = "world0\<lparr>trace := [Ran 1, Ran 2]\<rparr>"
  have rej: "execPool rejectingStage = Some rejecting \<and> ctx rejectingStage = Some ()"
    and adm: "execPool pooledStage = Some admitting \<and> ctx pooledStage = Some ()"
    and rejects: "admission rejecting () = Some 5"
    and admits: "admission admitting () = None"
    by (simp_all add: world0_def nodeB_def nodeC_def treeABC_def treeOk_def treePanic_def
          admitting_def rejecting_def pooledStage_def rejectingStage_def)
  have panics: "execute treePanic world0 = (Panic 9, ?w2)"
    and fails: "execute treeABC world0 = (Failed 7, ?w2)"
    by (simp_all add: world0_def nodeB_def nodeC_def treeABC_def treeOk_def treePanic_def
          admitting_def rejecting_def pooledStage_def rejectingStage_def node_Execute_def)
  note r = mp [OF errHandle_is_error_continuation
      [where stage = rejectingStage and pool = rejecting and c = "()" and node = treeOk
         and completeHandle = Suc and errHandle = plus and w = world0 and w' = world0
         and rejection = 5] rej]
  note p = mp [OF errHandle_is_error_continuation
      [where stage = pooledStage and pool = admitting and c = "()" and node = treePanic
         and completeHandle = Suc and errHandle = plus and w = world0 and w' = world0
         and p = 9 and w'' = "?w2"] adm]
  note f = mp [OF errHandle_is_error_continuation
      [where stage = pooledStage and pool = admitting and c = "()" and node = treeABC
         and completeHandle = Suc and errHandle = plus and w = world0 and w' = world0
         and err = 7 and w'' = "?w2"] adm]
  have 1: "process (rejecting, (), NewTask (ExecFn treeOk Suc plus) plus) world0
     = call_err plus 5 world0"
    using r rejects by blast
  have 2: "trace (call_err plus 5 world0) = [Errored 5]"
    by (simp add: call_err_def world0_def)
  have 3: "process (admitting, (), NewTask (ExecFn treePanic Suc plus) plus) world0
     = call_err plus 9 ?w2"
    using p admits panics by blast
  have 4: "process (admitting, (), NewTask (ExecFn treeABC Suc plus) plus) world0
     = call_err plus 7 ?w2"
    using f admits fails by blast
  from r [THEN conjunct1] 1 2 3 4 show ?thesis
    by (intro conjI)
qed

section \<open>The default hooks\<close>

text \<open>
  C8. \<^verbatim>\<open>Complete\<close> does nothing: it returns and leaves the world as it is, however often and
  after whatever calls it is made. \<^verbatim>\<open>NextStages\<close> returns the empty sequence, for every stage
  and after every history of calls.
\<close>

theorem default_Complete_and_NextStages:
  "Complete stage w = (Returns, w)
   \<and> NextStages stage = []
   \<and> Complete stage (snd (Complete stage w)) = (Returns, w)
   \<and> Complete (fst (run_calls calls (stage, w))) (snd (run_calls calls (stage, w)))
       = (Returns, snd (run_calls calls (stage, w)))
   \<and> NextStages (fst (run_calls calls (stage, w))) = []"
  by (simp add: Complete_def NextStages_def)

theorem default_Complete_and_NextStages_witness:
  "Complete inlineStage world0 = (Returns, world0)
   \<and> NextStages inlineStage = []
   \<and> Complete inlineStage (snd (Complete inlineStage world0)) = (Returns, world0)
   \<and> Complete (fst (run_calls [CallExecute treeOk Suc plus, CallComplete] (inlineStage, world0)))
        (snd (run_calls [CallExecute treeOk Suc plus, CallComplete] (inlineStage, world0)))
       = (Returns, snd (run_calls [CallExecute treeOk Suc plus, CallComplete] (inlineStage, world0)))
   \<and> NextStages (fst (run_calls [CallExecute treeOk Suc plus, CallComplete] (inlineStage, world0)))
       = []"
  by (rule default_Complete_and_NextStages
      [where stage = inlineStage and w = world0
         and calls = "[CallExecute treeOk Suc plus, CallComplete]"])

section \<open>The stage is left as it was\<close>

lemma execFn_store:
  "store (snd (execFn node completeHandle errHandle w))
     = (case fst (execute node w) of
          Ok \<Rightarrow> completeHandle (store (snd (execute node w)))
        | Failed err \<Rightarrow> errHandle err (store (snd (execute node w)))
        | Panic p \<Rightarrow> store (snd (execute node w)))"
  by (cases "execute node w")
     (simp add: execFn_def call_complete_def call_err_def split: outcome.splits)

lemma execFn_store_frame:
  assumes nodes: "\<forall>n\<in>set (preorder node). \<forall>s. snd (snd n s) = s"
    and complete: "\<forall>s. completeHandle s = s" and err: "\<forall>e s. errHandle e s = s"
  shows "store (snd (execFn node completeHandle errHandle w)) = store w"
proof -
  have "store (snd (execute node w)) = store w"
    using run_seq_store_frame [OF nodes] by (simp add: execute_run_seq)
  then show ?thesis
    using complete err by (cases "fst (execute node w)") (simp_all add: execFn_store)
qed

text \<open>
  C9. \<^verbatim>\<open>Type\<close> returns the stored tag and has no effect. Each of the five methods, run
  with its receiver, leaves the receiver as it found it and does to the world what the
  method does without the receiver; so no call of \<^verbatim>\<open>Type\<close>, \<^verbatim>\<open>Execute\<close>, \<^verbatim>\<open>execute\<close>,
  \<^verbatim>\<open>Complete\<close> or \<^verbatim>\<open>NextStages\<close>, and no sequence of them, changes the stage. The effects of
  \<^verbatim>\<open>Execute\<close> are the invocations of the nodes of the tree and of one continuation (on the
  asynchronous path: the one submission); if the nodes and the continuations leave the
  store alone, so does \<^verbatim>\<open>Execute\<close>.
\<close>

theorem stage_fields_unchanged:
  "Type stage = stageType stage
   \<and> Type_method (stage, w) = (stageType stage, (stage, w))
   \<and> execute_method node (stage, w) = (fst (execute node w), (stage, snd (execute node w)))
   \<and> Execute_method node completeHandle errHandle (stage, w)
       = (fst (Execute stage node completeHandle errHandle w),
          (stage, snd (Execute stage node completeHandle errHandle w)))
   \<and> Complete_method (stage, w) = (Returns, (stage, w))
   \<and> NextStages_method (stage, w) = ([], (stage, w))
   \<and> fst (invoke call (stage, w)) = stage
   \<and> fst (run_calls calls (stage, w)) = stage
   \<and> (execPool stage = None \<or> ctx stage = None \<longrightarrow>
        emitted w (snd (Execute stage node completeHandle errHandle w))
          = map Ran (executed (preorder node) (store w)) @ report (fst (execute node w))
        \<and> pending (snd (Execute stage node completeHandle errHandle w)) = pending w)
   \<and> (execPool stage = Some pool \<and> ctx stage = Some c \<longrightarrow>
        snd (Execute stage node completeHandle errHandle w)
          = w\<lparr>pending := pending w
              @ [(pool, c, NewTask (ExecFn node completeHandle errHandle) errHandle)]\<rparr>)
   \<and> ((\<forall>n\<in>set (preorder node). \<forall>s. snd (snd n s) = s)
        \<and> (\<forall>s. completeHandle s = s) \<and> (\<forall>err s. errHandle err s = s) \<longrightarrow>
        store (snd (Execute stage node completeHandle errHandle w)) = store w)"
proof -
  have inline: "emitted w (snd (Execute stage node completeHandle errHandle w))
          = map Ran (executed (preorder node) (store w)) @ report (fst (execute node w))
        \<and> pending (snd (Execute stage node completeHandle errHandle w)) = pending w"
    if "execPool stage = None \<or> ctx stage = None"
    by (simp add: Execute_sync [OF that] execFn_emitted execFn_pending)
  have pooled: "snd (Execute stage node completeHandle errHandle w)
          = w\<lparr>pending := pending w
              @ [(pool, c, NewTask (ExecFn node completeHandle errHandle) errHandle)]\<rparr>"
    if "execPool stage = Some pool" "ctx stage = Some c"
    by (simp add: Execute_async [OF that])
  have frame: "store (snd (Execute stage node completeHandle errHandle w)) = store w"
    if nodes: "\<forall>n\<in>set (preorder node). \<forall>s. snd (snd n s) = s"
      and complete: "\<forall>s. completeHandle s = s" and err: "\<forall>err s. errHandle err s = s"
  proof (cases "execPool stage = None \<or> ctx stage = None")
    case True
    show ?thesis
      unfolding Execute_sync [OF True] by (rule execFn_store_frame [OF nodes complete err])
  next
    case False
    then obtain pool' c' where some: "execPool stage = Some pool'" "ctx stage = Some c'" by auto
    show ?thesis by (simp add: Execute_async [OF some])
  qed
  have type: "Type stage = stageType stage" by (simp add: Type_def)
  have type_method: "Type_method (stage, w) = (stageType stage, (stage, w))"
    by (simp add: Type_method_def)
  have complete_method: "Complete_method (stage, w) = (Returns, (stage, w))"
    by (simp add: Complete_method_def)
  have next_method: "NextStages_method (stage, w) = ([], (stage, w))"
    by (simp add: NextStages_method_def)
  have one: "fst (invoke call (stage, w)) = stage" by (simp add: invoke_stage)
  have many: "fst (run_calls calls (stage, w)) = stage" by (simp add: run_calls_stage)
  show ?thesis
    by (intro conjI impI type type_method execute_method_agrees(1) Execute_method_agrees
          complete_method next_method one many inline pooled frame; (elim conjE)?; assumption)
qed

theorem stage_fields_unchanged_witness:
  "Type rejectingStage = 1
   \<and> fst (run_calls [CallExecute treeABC Suc plus, CallComplete, CallType, CallNextStages,
          CallExecuteTree treeOk] (inlineStage, world0)) = inlineStage
   \<and> fst (invoke (CallExecute treePanic Suc plus) (pooledStage, world0)) = pooledStage
   \<and> emitted world0 (snd (Execute inlineStage treeABC Suc plus world0))
       = [Ran 1, Ran 2, Errored 7]
   \<and> pending (snd (Execute inlineStage treeABC Suc plus world0)) = []
   \<and> snd (Execute pooledStage treeOk Suc plus world0)
       = world0\<lparr>pending := [(admitting, (), NewTask (ExecFn treeOk Suc plus) plus)]\<rparr>
   \<and> store (snd (Execute inlineStage treeOk id keep world0)) = 0
   \<and> fst (snd (Execute_method treeABC Suc plus (inlineStage, world0))) = inlineStage
   \<and> fst (snd (execute_method treePanic (pooledStage, world0))) = pooledStage"
proof -
  have sync: "execPool inlineStage = None \<or> ctx inlineStage = None"
    and async: "execPool pooledStage = Some admitting \<and> ctx pooledStage = Some ()"
    and w0: "store world0 = 0" "pending world0 = []"
    and tag: "stageType rejectingStage = 1"
    by (simp_all add: world0_def inlineStage_def pooledStage_def rejectingStage_def)
  have inert: "(\<forall>n\<in>set (preorder treeOk). \<forall>s. snd (snd n s) = s)
      \<and> (\<forall>s. id s = s) \<and> (\<forall>err s. keep err s = s)"
    by (simp add: treeOk_def nodeC_def keep_def)
  have events: "map Ran (executed (preorder treeABC) (store world0))
      @ report (fst (execute treeABC world0)) = [Ran 1, Ran 2, Errored 7]"
    by (simp add: world0_def treeABC_def nodeB_def nodeC_def node_Execute_def)
  note conj5 = conjunct2 [THEN conjunct2, THEN conjunct2, THEN conjunct2, THEN conjunct2]
  note a = stage_fields_unchanged [where stage = rejectingStage, THEN conjunct1, unfolded tag]
  note b = stage_fields_unchanged
      [where stage = inlineStage and w = world0
         and calls = "[CallExecute treeABC Suc plus, CallComplete, CallType, CallNextStages,
           CallExecuteTree treeOk]",
       THEN conj5, THEN conjunct2, THEN conjunct2, THEN conjunct1]
  note c = stage_fields_unchanged
      [where stage = pooledStage and w = world0 and call = "CallExecute treePanic Suc plus",
       THEN conj5, THEN conjunct2, THEN conjunct1]
  note d = mp [OF stage_fields_unchanged
      [where stage = inlineStage and w = world0 and node = treeABC and completeHandle = Suc
         and errHandle = plus,
       THEN conj5, THEN conjunct2, THEN conjunct2, THEN conjunct2, THEN conjunct1] sync]
  note e = mp [OF stage_fields_unchanged
      [where stage = pooledStage and w = world0 and node = treeOk and completeHandle = Suc
         and errHandle = plus and pool = admitting and c = "()",
       THEN conj5, THEN conjunct2, THEN conjunct2, THEN conjunct2, THEN conjunct2,
       THEN conjunct1] async]
  note f = mp [OF stage_fields_unchanged
      [where stage = inlineStage and w = world0 and node = treeOk and completeHandle = id
         and errHandle = keep,
       THEN conj5, THEN conjunct2, THEN conjunct2, THEN conjunct2, THEN conjunct2,
       THEN conjunct2] inert]
  note g = stage_fields_unchanged
      [where stage = inlineStage and w = world0 and node = treeABC and completeHandle = Suc
         and errHandle = plus,
       THEN conjunct2, THEN conjunct2, THEN conjunct2, THEN conjunct1]
  note h = stage_fields_unchanged
      [where stage = pooledStage and w = world0 and node = treePanic,
       THEN conjunct2, THEN conjunct2, THEN conjunct1]
  note d1 = trans [OF d [THEN conjunct1] events]
  note d2 = d [THEN conjunct2, unfolded w0]
  note e' = e [unfolded w0 append_Nil]
  note f' = f [unfolded w0]
  have g': "fst (snd (Execute_method treeABC Suc plus (inlineStage, world0))) = inlineStage"
    unfolding g by simp
  have h': "fst (snd (execute_method treePanic (pooledStage, world0))) = pooledStage"
    unfolding h by simp
  from a b c d1 d2 e' f' g' h' show ?thesis
    by (intro conjI)
qed

section \<open>Determinism of the synchronous path\<close>

lemma execFn_by_results:
  "fst (execFn node completeHandle errHandle w)
     = (case verdict (results (preorder node) (store w)) of
          Ok \<Rightarrow> Returns | Failed err \<Rightarrow> Returns | Panic p \<Rightarrow> Panics p)"
  "continuations (emitted w (snd (execFn node completeHandle errHandle w)))
     = report (verdict (results (preorder node) (store w)))"
  by (simp_all add: execFn_exit execFn_emitted execute_verdict)

text \<open>
  C10. On the synchronous path the stage plays no part in the outcome of \<^verbatim>\<open>Execute\<close>: two
  stages without pool or context do the same on the same node, continuations and world.
  The exit of \<^verbatim>\<open>Execute\<close> and the continuation it invokes, with its error value, are given
  by the results that the nodes return in the run: two runs in which the nodes return the
  same results in the same order, on whatever trees, worlds and continuations, invoke the
  same continuation with the same error value. Earlier calls on the stage do not change
  this: after any history of calls the stage is still without pool or context, and the run
  on the world that the history left is again given by the results of its nodes.
\<close>

theorem inline_Execute_deterministic:
  "((execPool st1 = None \<or> ctx st1 = None) \<and> (execPool st2 = None \<or> ctx st2 = None) \<longrightarrow>
      Execute st1 node completeHandle errHandle w = Execute st2 node completeHandle errHandle w)
   \<and> ((execPool st1 = None \<or> ctx st1 = None) \<longrightarrow>
      fst (Execute st1 n1 ch1 eh1 w1)
        = (case verdict (results (preorder n1) (store w1)) of
             Ok \<Rightarrow> Returns | Failed err \<Rightarrow> Returns | Panic p \<Rightarrow> Panics p)
      \<and> continuations (emitted w1 (snd (Execute st1 n1 ch1 eh1 w1)))
        = report (verdict (results (preorder n1) (store w1))))
   \<and> ((execPool st1 = None \<or> ctx st1 = None) \<and> (execPool st2 = None \<or> ctx st2 = None)
      \<and> results (preorder n1) (store w1) = results (preorder n2) (store w2) \<longrightarrow>
      fst (Execute st1 n1 ch1 eh1 w1) = fst (Execute st2 n2 ch2 eh2 w2)
      \<and> continuations (emitted w1 (snd (Execute st1 n1 ch1 eh1 w1)))
        = continuations (emitted w2 (snd (Execute st2 n2 ch2 eh2 w2))))
   \<and> ((execPool st1 = None \<or> ctx st1 = None) \<and> (execPool st2 = None \<or> ctx st2 = None)
      \<and> results (preorder n1) (store (snd (run_calls calls (st1, w0))))
        = results (preorder n2) (store w2) \<longrightarrow>
      (execPool (fst (run_calls calls (st1, w0))) = None
        \<or> ctx (fst (run_calls calls (st1, w0))) = None)
      \<and> fst (Execute (fst (run_calls calls (st1, w0))) n1 ch1 eh1 (snd (run_calls calls (st1, w0))))
        = fst (Execute st2 n2 ch2 eh2 w2)
      \<and> continuations (emitted (snd (run_calls calls (st1, w0)))
          (snd (Execute (fst (run_calls calls (st1, w0))) n1 ch1 eh1
                 (snd (run_calls calls (st1, w0))))))
        = continuations (emitted w2 (snd (Execute st2 n2 ch2 eh2 w2))))"
proof -
  have same_stage: "Execute st1 node completeHandle errHandle w
      = Execute st2 node completeHandle errHandle w"
    if "execPool st1 = None \<or> ctx st1 = None" "execPool st2 = None \<or> ctx st2 = None"
    by (simp add: Execute_sync [OF that(1)] Execute_sync [OF that(2)])
  have g1: "fst (Execute st1 n1 ch1 eh1 v1)
        = (case verdict (results (preorder n1) (store v1)) of
             Ok \<Rightarrow> Returns | Failed err \<Rightarrow> Returns | Panic p \<Rightarrow> Panics p)
      \<and> continuations (emitted v1 (snd (Execute st1 n1 ch1 eh1 v1)))
        = report (verdict (results (preorder n1) (store v1)))"
    if "execPool st1 = None \<or> ctx st1 = None" for v1
    unfolding Execute_sync [OF that] by (simp add: execFn_by_results)
  have g2: "fst (Execute st2 n2 ch2 eh2 w2)
        = (case verdict (results (preorder n2) (store w2)) of
             Ok \<Rightarrow> Returns | Failed err \<Rightarrow> Returns | Panic p \<Rightarrow> Panics p)
      \<and> continuations (emitted w2 (snd (Execute st2 n2 ch2 eh2 w2)))
        = report (verdict (results (preorder n2) (store w2)))"
    if "execPool st2 = None \<or> ctx st2 = None"
    unfolding Execute_sync [OF that] by (simp add: execFn_by_results)
  have same_results: "fst (Execute st1 n1 ch1 eh1 v1) = fst (Execute st2 n2 ch2 eh2 w2)
      \<and> continuations (emitted v1 (snd (Execute st1 n1 ch1 eh1 v1)))
        = continuations (emitted w2 (snd (Execute st2 n2 ch2 eh2 w2)))"
    if s1: "execPool st1 = None \<or> ctx st1 = None" and s2: "execPool st2 = None \<or> ctx st2 = None"
      and eq: "results (preorder n1) (store v1) = results (preorder n2) (store w2)"
    for v1
    using g1 [OF s1, of v1] g2 [OF s2] by (simp add: eq)
  have history: "(execPool (fst (run_calls calls (st1, w0))) = None
        \<or> ctx (fst (run_calls calls (st1, w0))) = None)
      \<and> fst (Execute (fst (run_calls calls (st1, w0))) n1 ch1 eh1 (snd (run_calls calls (st1, w0))))
        = fst (Execute st2 n2 ch2 eh2 w2)
      \<and> continuations (emitted (snd (run_calls calls (st1, w0)))
          (snd (Execute (fst (run_calls calls (st1, w0))) n1 ch1 eh1
                 (snd (run_calls calls (st1, w0))))))
        = continuations (emitted w2 (snd (Execute st2 n2 ch2 eh2 w2)))"
    if s1: "execPool st1 = None \<or> ctx st1 = None" and s2: "execPool st2 = None \<or> ctx st2 = None"
      and eq: "results (preorder n1) (store (snd (run_calls calls (st1, w0))))
        = results (preorder n2) (store w2)"
  proof -
    have st: "fst (run_calls calls (st1, w0)) = st1"
      by (simp add: run_calls_stage)
    show ?thesis
      unfolding st using s1 same_results [OF s1 s2 eq] by simp
  qed
  show ?thesis
    by (intro conjI impI same_stage g1 same_results history; (elim conjE)?; assumption)
qed

theorem inline_Execute_deterministic_witness:
  "Execute inlineStage treeABC Suc plus world0 = Execute contextOnlyStage treeABC Suc plus world0
   \<and> map snd (preorder treeABC) \<noteq> map snd (preorder treeCount)
   \<and> results (preorder treeABC) (store world0) = [Ok, Failed 7]
   \<and> results (preorder treeCount) (store (world0\<lparr>store := 5\<rparr>)) = [Ok, Failed 7]
   \<and> continuations (emitted world0 (snd (Execute inlineStage treeABC Suc plus world0)))
       = continuations (emitted (world0\<lparr>store := 5\<rparr>)
           (snd (Execute contextOnlyStage treeCount id keep (world0\<lparr>store := 5\<rparr>))))
   \<and> continuations (emitted world0 (snd (Execute inlineStage treeABC Suc plus world0)))
       = [Errored 7]
   \<and> continuations
        (emitted (snd (run_calls [CallExecute treeCount Suc plus, CallComplete, CallNextStages]
                        (inlineStage, world0)))
          (snd (Execute (fst (run_calls [CallExecute treeCount Suc plus, CallComplete,
                                CallNextStages] (inlineStage, world0)))
                  treeCount Suc plus
                  (snd (run_calls [CallExecute treeCount Suc plus, CallComplete, CallNextStages]
                         (inlineStage, world0))))))
       = continuations (emitted world0 (snd (Execute contextOnlyStage treeABC Suc plus world0)))"
proof -
  let ?w5 = "world0\<lparr>store := 5\<rparr>"
  let ?calls = "[CallExecute treeCount Suc plus, CallComplete, CallNextStages]"
  have s1: "execPool inlineStage = None \<or> ctx inlineStage = None"
    and s2: "execPool contextOnlyStage = None \<or> ctx contextOnlyStage = None"
    by (simp_all add: inlineStage_def contextOnlyStage_def)
  have differ: "map snd (preorder treeABC) \<noteq> map snd (preorder treeCount)"
    by (simp add: treeABC_def nodeB_def nodeC_def treeCount_def)
  have r1: "results (preorder treeABC) (store world0) = [Ok, Failed 7]"
    by (simp add: world0_def treeABC_def nodeB_def nodeC_def)
  have r2: "results (preorder treeCount) (store ?w5) = [Ok, Failed 7]"
    by (simp add: treeCount_def bump_def atOne_def)
  have after: "snd (run_calls ?calls (inlineStage, world0))
      = \<lparr>store = 2, trace = [Ran 1, Ran 2, Completed], pending = []\<rparr>"
    by (simp add: Execute_method_agrees Complete_method_def NextStages_method_def
          Execute_sync [OF s1] execFn_def treeCount_def bump_def atOne_def node_Execute_def
          call_complete_def world0_def)
  have r3: "results (preorder treeCount) (store (snd (run_calls ?calls (inlineStage, world0))))
      = results (preorder treeABC) (store world0)"
    unfolding after r1 by (simp add: treeCount_def bump_def atOne_def)
  note inst = inline_Execute_deterministic
      [where ?st1.0 = inlineStage and ?st2.0 = contextOnlyStage and node = treeABC
         and completeHandle = Suc and errHandle = plus and w = world0
         and ?n1.0 = treeABC and ?ch1.0 = Suc and ?eh1.0 = plus and ?w1.0 = world0]
  note a = mp [OF inst [THEN conjunct1] conjI [OF s1 s2]]
  note b = mp [OF inst [THEN conjunct2, THEN conjunct1] s1]
  note c = mp [OF inst [where ?n2.0 = treeCount and ?ch2.0 = id and ?eh2.0 = keep
          and ?w2.0 = "?w5", THEN conjunct2, THEN conjunct2, THEN conjunct1]
      conjI [OF s1 conjI [OF s2 trans [OF r1 r2 [symmetric]]]]]
  note d = mp [OF inline_Execute_deterministic
      [where ?st1.0 = inlineStage and ?st2.0 = contextOnlyStage and calls = "?calls"
         and ?w0.0 = world0 and ?n1.0 = treeCount and ?ch1.0 = Suc and ?eh1.0 = plus
         and ?n2.0 = treeABC and ?ch2.0 = Suc and ?eh2.0 = plus and ?w2.0 = world0,
       THEN conjunct2, THEN conjunct2, THEN conjunct2]
      conjI [OF s1 conjI [OF s2 r3]]]
  have e: "continuations (emitted world0 (snd (Execute inlineStage treeABC Suc plus world0)))
       = [Errored 7]"
    unfolding b [THEN conjunct2] r1 by simp
  from a differ r1 r2 c [THEN conjunct2] e d [THEN conjunct2, THEN conjunct2]
  show ?thesis
    by (intro conjI)
qed

end
